theory Spec2Isabelle
  imports
    Complex_Main
    "HOL-Library.Word"
    "HOL-Library.Signed_Division"
    "HOL-Library.Sublist"
    "HOL-Library.Multiset"
begin

unbundle bit_operations_syntax

section \<open>The load tester of pod-rightsizer (pkg/loadtest/tester.go)\<close>

text \<open>
  The development embeds three parts of \<^verbatim>\<open>tester.go\<close>: the metrics aggregate
  (\<^verbatim>\<open>Metrics\<close> with \<^verbatim>\<open>Add\<close> and its four derived statistics), the guard around the
  results channel (\<^verbatim>\<open>safeSend\<close>, \<^verbatim>\<open>safeClose\<close>) and the target validator
  (\<^verbatim>\<open>isURL\<close>, \<^verbatim>\<open>validateTarget\<close>).

  Go's \<^verbatim>\<open>int\<close>, \<^verbatim>\<open>int64\<close> and \<^verbatim>\<open>time.Duration\<close> are 64-bit two's complement
  integers on the platforms the tool is built for; they are words of 64 bits here, read
  through \<open>sint\<close>, so that \<^verbatim>\<open>++\<close> and \<^verbatim>\<open>+=\<close> wrap as they do in Go. Diagnostic
  printing (\<^verbatim>\<open>fmt.Printf\<close>) has no effect on the state and is left out.
\<close>

subsection \<open>Machine integers, durations and run-time panics\<close>

type_synonym int64 = "64 word"

text \<open>The run-time panics of Go that the embedded code could raise.\<close>

datatype panic =
    DivideByZero
  | IndexOutOfRange
  | SendOnClosedChannel
  | CloseOfClosedChannel

text \<open>\<^verbatim>\<open>time.Second\<close> and \<^verbatim>\<open>time.Hour\<close>, in nanoseconds.\<close>

definition Second :: int64 where
  "Second = 1000000000"

definition Hour :: int64 where
  "Hour = 3600 * Second"

text \<open>
  Integer division of Go: the quotient is truncated towards zero, a zero divisor
  panics, and the most negative value divided by \<open>-1\<close> wraps to itself.
\<close>

definition go_div :: "int64 \<Rightarrow> int64 \<Rightarrow> panic + int64" where
  "go_div a b = (if b = 0 then Inl DivideByZero else Inr (word_of_int (sint a sdiv sint b)))"

text \<open>
  A \<^verbatim>\<open>float64\<close> that is only reported, never converted back to an integer, is
  idealised as a real number: the operations are exact, rounding is not modelled.
  (The one product that is truncated to an index, in \<^verbatim>\<open>P95Latency\<close>, is modelled
  with its rounding below.)
\<close>

type_synonym float64 = real

definition float64_of :: "int64 \<Rightarrow> float64" where
  "float64_of x = real_of_int (sint x)"

text \<open>
  \<^verbatim>\<open>Duration.Seconds\<close> of the standard library:
  \<^verbatim>\<open>sec := d / Second; nsec := d % Second; return float64(sec) + float64(nsec)/1e9\<close>.
  Quotient and remainder are truncated towards zero (\<open>sdiv\<close>, \<open>smod\<close>); the divisor
  is not zero.
\<close>

definition Seconds :: "int64 \<Rightarrow> float64" where
  "Seconds d =
     real_of_int (sint d sdiv sint Second) + real_of_int (sint d smod sint Second) / 1000000000"

subsection \<open>Outcomes and the metrics aggregate\<close>

text \<open>
  \<^verbatim>\<open>Result\<close>: the outcome of one request. \<open>Error\<close> is \<open>None\<close> for Go's \<^verbatim>\<open>nil\<close>.
\<close>

record Result =
  Latency :: int64
  StatusCode :: int64
  Error :: "string option"

text \<open>
  \<^verbatim>\<open>Metrics\<close>. The map \<^verbatim>\<open>StatusCodes\<close> is \<open>None\<close> while it is Go's \<^verbatim>\<open>nil\<close> map
  and \<open>Some\<close> of a finite map once \<^verbatim>\<open>Add\<close> has made it.
\<close>

record Metrics =
  Requests :: int64
  Success :: int64
  Failures :: int64
  StatusCodes :: "(int64 \<rightharpoonup> int64) option"
  TotalLatency :: int64
  MinLatency :: int64
  MaxLatency :: int64
  Latencies :: "int64 list"

text \<open>The zero value of the struct, as \<^verbatim>\<open>var metrics Metrics\<close> creates it.\<close>

definition zeroMetrics :: Metrics where
  "zeroMetrics = \<lparr>Requests = 0, Success = 0, Failures = 0, StatusCodes = None,
     TotalLatency = 0, MinLatency = 0, MaxLatency = 0, Latencies = []\<rparr>"

text \<open>
  Reading the histogram: a \<^verbatim>\<open>nil\<close> map reads like an empty one, and a missing key
  reads as \<open>0\<close>.
\<close>

definition histogram :: "Metrics \<Rightarrow> int64 \<rightharpoonup> int64" where
  "histogram m = (case StatusCodes m of None \<Rightarrow> Map.empty | Some h \<Rightarrow> h)"

definition count_of :: "(int64 \<rightharpoonup> int64) \<Rightarrow> int64 \<Rightarrow> int64" where
  "count_of h k = (case h k of None \<Rightarrow> 0 | Some c \<Rightarrow> c)"

text \<open>
  \<^verbatim>\<open>Metrics.Add\<close>, block by block. \<open>init_once\<close> is the first \<^verbatim>\<open>if\<close>: the map is
  made and \<^verbatim>\<open>MinLatency\<close> is set to 24 hours.
\<close>

definition init_once :: "Metrics \<Rightarrow> Metrics" where
  "init_once m =
     (if StatusCodes m = None
      then m\<lparr>StatusCodes := Some Map.empty, MinLatency := 24 * Hour\<rparr>
      else m)"

text \<open>\<^verbatim>\<open>m.StatusCodes[r.StatusCode]++\<close>\<close>

definition bump_status :: "int64 \<Rightarrow> Metrics \<Rightarrow> Metrics" where
  "bump_status code m =
     m\<lparr>StatusCodes := Some ((histogram m)(code \<mapsto> count_of (histogram m) code + 1))\<rparr>"

text \<open>The latency sum, the sample sequence, and the two comparisons for min and max.\<close>

definition track_latency :: "int64 \<Rightarrow> Metrics \<Rightarrow> Metrics" where
  "track_latency l m =
     (let m1 = m\<lparr>TotalLatency := TotalLatency m + l, Latencies := Latencies m @ [l]\<rparr>;
          m2 = (if l <s MinLatency m1 then m1\<lparr>MinLatency := l\<rparr> else m1)
      in if MaxLatency m2 <s l then m2\<lparr>MaxLatency := l\<rparr> else m2)"

text \<open>\<^verbatim>\<open>r.StatusCode >= 200 && r.StatusCode < 400\<close>\<close>

definition is_success_code :: "int64 \<Rightarrow> bool" where
  "is_success_code code \<longleftrightarrow> 200 \<le>s code \<and> code <s 400"

definition classify :: "int64 \<Rightarrow> Metrics \<Rightarrow> Metrics" where
  "classify code m =
     (if is_success_code code then m\<lparr>Success := Success m + 1\<rparr>
      else m\<lparr>Failures := Failures m + 1\<rparr>)"

definition Add :: "Metrics \<Rightarrow> Result \<Rightarrow> Metrics" where
  "Add m r =
     (let m1 = init_once m;
          m2 = m1\<lparr>Requests := Requests m1 + 1\<rparr>
      in if Error r \<noteq> None then m2\<lparr>Failures := Failures m2 + 1\<rparr>
         else classify (StatusCode r) (track_latency (Latency r) (bump_status (StatusCode r) m2)))"

text \<open>The consumer loop feeds the outcomes to \<^verbatim>\<open>Add\<close> one after the other.\<close>

definition add_all :: "Metrics \<Rightarrow> Result list \<Rightarrow> Metrics" where
  "add_all m rs = foldl Add m rs"


subsection \<open>Derived statistics\<close>

text \<open>
  \<^verbatim>\<open>MeanLatency\<close>: the integer quotient of the latency sum by the request count,
  behind a guard.
\<close>

definition MeanLatency :: "Metrics \<Rightarrow> panic + int64" where
  "MeanLatency m =
     (if Requests m = 0 \<or> TotalLatency m = 0 then Inr 0
      else go_div (TotalLatency m) (Requests m))"

text \<open>\<^verbatim>\<open>SuccessRate\<close>: \<^verbatim>\<open>float64(m.Success) / float64(m.Requests) * 100.0\<close>.\<close>

definition SuccessRate :: "Metrics \<Rightarrow> float64" where
  "SuccessRate m =
     (if Requests m = 0 then 0
      else float64_of (Success m) / float64_of (Requests m) * 100)"

text \<open>\<^verbatim>\<open>Throughput\<close>: \<^verbatim>\<open>float64(m.Requests) / m.TotalLatency.Seconds()\<close>.\<close>

definition Throughput :: "Metrics \<Rightarrow> float64" where
  "Throughput m =
     (if Requests m = 0 \<or> TotalLatency m = 0 then 0
      else float64_of (Requests m) / Seconds (TotalLatency m))"

text \<open>
  \<^verbatim>\<open>P95Latency\<close> computes its index as \<^verbatim>\<open>int(float64(len(sortedLatencies)) * 0.95)\<close>.
  The result is truncated to an integer, so the rounding of the two floating-point
  operations is modelled exactly, on natural numbers.

  A finite non-negative \<^verbatim>\<open>float64\<close> is a significand of at most 53 bits times a power
  of two. \<open>round53 n\<close> is the natural number with at most 53 significant bits that is
  nearest to \<open>n\<close>, a tie going to the even significand (IEEE 754 round to nearest even,
  the rounding of Go's conversions and arithmetic): \<open>s\<close> low bits are cut off, \<open>r\<close> is
  what they held and \<open>h\<close> is half a unit of the last kept bit.
\<close>

fun bit_length :: "nat \<Rightarrow> nat" where
  "bit_length n = (if n = 0 then 0 else Suc (bit_length (n div 2)))"

declare bit_length.simps [simp del]

definition round53 :: "nat \<Rightarrow> nat" where
  "round53 n =
     (if bit_length n \<le> 53 then n
      else let s = bit_length n - 53;
               q = n div 2 ^ s;
               r = n mod 2 ^ s;
               h = 2 ^ (s - 1)
           in (if h < r \<or> (r = h \<and> odd q) then q + 1 else q) * 2 ^ s)"

text \<open>
  The constant \<^verbatim>\<open>0.95\<close> is the \<^verbatim>\<open>float64\<close> nearest to 19/20, with the bits
  \<^verbatim>\<open>0x3FEE666666666666\<close>: the significand \<^verbatim>\<open>0x1E666666666666\<close> (in decimal
  8556839292003942) divided by \<open>2 ^ 53\<close>.
\<close>

definition f64_095 :: nat where
  "f64_095 = 8556839292003942"

text \<open>
  \<^verbatim>\<open>float64(len)\<close> is \<open>round53 len\<close>. Its exact product with the constant is
  \<open>round53 len * f64_095 / 2 ^ 53\<close>; rounding commutes with the scaling by a power of
  two (the values are far from underflow and overflow), so the \<^verbatim>\<open>float64\<close> product is
  \<open>round53 (round53 len * f64_095) / 2 ^ 53\<close>, and the conversion \<^verbatim>\<open>int(...)\<close>
  truncates it.
\<close>

definition p95_index :: "nat \<Rightarrow> nat" where
  "p95_index len = round53 (round53 len * f64_095) div 2 ^ 53"

text \<open>
  \<^verbatim>\<open>sort.Slice\<close> with the comparison \<^verbatim>\<open>sortedLatencies[i] < sortedLatencies[j]\<close>
  on durations: the ascending arrangement by signed value. (\<^verbatim>\<open>sort.Slice\<close> is not
  stable, but equal durations cannot be told apart.)
\<close>

definition sort_Slice :: "int64 list \<Rightarrow> int64 list" where
  "sort_Slice xs = sort_key sint xs"

text \<open>Indexing a slice panics out of range.\<close>

definition index_go :: "'a list \<Rightarrow> nat \<Rightarrow> panic + 'a" where
  "index_go xs i = (if i < length xs then Inr (xs ! i) else Inl IndexOutOfRange)"

definition P95Latency :: "Metrics \<Rightarrow> panic + int64" where
  "P95Latency m =
     (if length (Latencies m) = 0 then Inr 0
      else let sortedLatencies = sort_Slice (Latencies m);
               idx = p95_index (length sortedLatencies);
               idx' = (if length sortedLatencies \<le> idx then length sortedLatencies - 1 else idx)
           in index_go sortedLatencies idx')"

subsection \<open>The results channel and its guard\<close>

text \<open>
  A Go channel of outcomes with a buffer of \<open>cap\<close> slots. \<open>parked\<close> says that the one
  consumer is blocked in its \<^verbatim>\<open>select\<close>, waiting to receive; \<open>received\<close> records
  what the consumer has taken so far.
\<close>

record chan =
  buf :: "Result list"
  cap :: nat
  chclosed :: bool
  parked :: bool
  received :: "Result list"

text \<open>
  A send can proceed on a closed channel (it panics), when a receiver is waiting (the
  value is handed over) and when the buffer has room.
\<close>

definition chan_send_ready :: "chan \<Rightarrow> bool" where
  "chan_send_ready c \<longleftrightarrow> chclosed c \<or> parked c \<or> length (buf c) < cap c"

definition chan_send :: "chan \<Rightarrow> Result \<Rightarrow> panic + chan" where
  "chan_send c r =
     (if chclosed c then Inl SendOnClosedChannel
      else if parked c then Inr (c\<lparr>parked := False, received := received c @ [r]\<rparr>)
      else Inr (c\<lparr>buf := buf c @ [r]\<rparr>))"

text \<open>\<^verbatim>\<open>close(ch)\<close> panics on a closed channel; it wakes a waiting receiver.\<close>

definition chan_close :: "chan \<Rightarrow> panic + chan" where
  "chan_close c =
     (if chclosed c then Inl CloseOfClosedChannel
      else Inr (c\<lparr>chclosed := True, parked := False\<rparr>))"

text \<open>
  The variables that \<^verbatim>\<open>safeSend\<close> and \<^verbatim>\<open>safeClose\<close> share: the channel, the flag
  \<^verbatim>\<open>resultChanClosed\<close>, and whether \<^verbatim>\<open>testCtx.Done()\<close> has fired. \<open>closes\<close> counts
  the executions of \<^verbatim>\<open>close(resultsChan)\<close> and \<open>warnings\<close> the printed
  buffer-full warnings. Both functions hold \<^verbatim>\<open>resultChanMutex\<close> from entry to
  return, so each call is one atomic step of the state.
\<close>

record guard =
  resultsChan :: chan
  resultChanClosed :: bool
  ctxDone :: bool
  closes :: nat
  warnings :: nat

definition newGuard :: "nat \<Rightarrow> guard" where
  "newGuard n =
     \<lparr>resultsChan = \<lparr>buf = [], cap = n, chclosed = False, parked = False, received = []\<rparr>,
      resultChanClosed = False, ctxDone = False, closes = 0, warnings = 0\<rparr>"

text \<open>
  \<^verbatim>\<open>safeSend\<close>. A \<^verbatim>\<open>select\<close> of Go picks, among the cases that can proceed, one at
  random, and takes \<^verbatim>\<open>default\<close> only if none can. The function therefore returns the
  list of its possible results: one for the case \<^verbatim>\<open><-testCtx.Done()\<close> if the
  context is done, one for the case \<^verbatim>\<open>resultsChan <- result\<close> if the send can
  proceed, and the result of \<^verbatim>\<open>default\<close> if that list is empty.
\<close>

definition select_cases :: "guard \<Rightarrow> Result \<Rightarrow> (panic + guard) list" where
  "select_cases g r =
     (if ctxDone g then [Inr g] else []) @
     (if chan_send_ready (resultsChan g)
      then [case chan_send (resultsChan g) r of
              Inl p \<Rightarrow> Inl p
            | Inr c \<Rightarrow> Inr (g\<lparr>resultsChan := c\<rparr>)]
      else [])"

definition safeSend :: "guard \<Rightarrow> Result \<Rightarrow> (panic + guard) list" where
  "safeSend g r =
     (if \<not> resultChanClosed g
      then (if select_cases g r = [] then [Inr (g\<lparr>warnings := warnings g + 1\<rparr>)]
            else select_cases g r)
      else [Inr g])"

definition safeClose :: "guard \<Rightarrow> panic + guard" where
  "safeClose g =
     (if \<not> resultChanClosed g
      then (case chan_close (resultsChan g) of
              Inl p \<Rightarrow> Inl p
            | Inr c \<Rightarrow> Inr (g\<lparr>resultChanClosed := True, resultsChan := c, closes := closes g + 1\<rparr>))
      else Inr g)"

text \<open>
  What happens around the guard: the deadline or a cancellation fires (a consumer
  waiting in its \<^verbatim>\<open>select\<close> wakes up and returns), and the consumer tries to receive
  (it takes the oldest buffered outcome, or waits if the buffer is empty, the channel
  open and the context not done).
\<close>

definition cancel :: "guard \<Rightarrow> guard" where
  "cancel g = g\<lparr>ctxDone := True, resultsChan := (resultsChan g)\<lparr>parked := False\<rparr>\<rparr>"

definition consumer_recv :: "guard \<Rightarrow> guard" where
  "consumer_recv g =
     (let c = resultsChan g in
      case buf c of
        x # xs \<Rightarrow> g\<lparr>resultsChan := c\<lparr>buf := xs, received := received c @ [x]\<rparr>\<rparr>
      | [] \<Rightarrow> if \<not> chclosed c \<and> \<not> ctxDone g then g\<lparr>resultsChan := c\<lparr>parked := True\<rparr>\<rparr> else g)"

datatype op = Send Result | Close | Cancel | Recv

fun is_Send :: "op \<Rightarrow> bool" where
  "is_Send (Send r) = True"
| "is_Send _ = False"

fun step :: "guard \<Rightarrow> op \<Rightarrow> (panic + guard) list" where
  "step g (Send r) = safeSend g r"
| "step g Close = [safeClose g]"
| "step g Cancel = [Inr (cancel g)]"
| "step g Recv = [Inr (consumer_recv g)]"

text \<open>
  All results of a sequence of operations, each run on every result of the ones before
  it; a panic ends the run.
\<close>

fun run_ops :: "guard \<Rightarrow> op list \<Rightarrow> (panic + guard) list" where
  "run_ops g [] = [Inr g]"
| "run_ops g (x # xs) =
     concat (map (\<lambda>out. case out of Inl p \<Rightarrow> [Inl p] | Inr g' \<Rightarrow> run_ops g' xs) (step g x))"

text \<open>
  The invariant of the guard: the flag says whether the channel is closed, and the
  channel has been closed as often as the flag says.
\<close>

definition guard_inv :: "guard \<Rightarrow> bool" where
  "guard_inv g \<longleftrightarrow>
     resultChanClosed g = chclosed (resultsChan g) \<and>
     closes g = (if resultChanClosed g then 1 else 0)"

subsection \<open>The target validator\<close>

text \<open>
  The fields of \<^verbatim>\<open>Tester\<close> that are plain data (the HTTP client and the unused
  results channel are left out).
\<close>

record Tester =
  target :: string
  rps :: int64
  concurrency :: int64

text \<open>
  \<^verbatim>\<open>isURL\<close>. A Go string is a sequence of bytes and \<^verbatim>\<open>s[0:7]\<close> slices bytes, as
  \<open>take\<close> does on a list of 8-bit characters.
\<close>

definition isURL :: "string \<Rightarrow> bool" where
  "isURL s =
     (let hasHTTP = (7 \<le> length s \<and> take 7 s = ''http://'');
          hasHTTPS = (8 \<le> length s \<and> take 8 s = ''https://'')
      in hasHTTP \<or> hasHTTPS)"

text \<open>The first half of \<^verbatim>\<open>validateTarget\<close>: the string that is handed to the parser.\<close>

definition prefixed_target :: "Tester \<Rightarrow> string" where
  "prefixed_target t = (if \<not> isURL (target t) then ''http://'' @ target t else target t)"

text \<open>
  \<^verbatim>\<open>validateTarget\<close>. \<^verbatim>\<open>url.Parse\<close> belongs to Go's standard library, not to this
  repository; it is a parameter, any function from strings to an error or a URL.
\<close>

definition validateTarget :: "(string \<Rightarrow> 'e + 'u) \<Rightarrow> Tester \<Rightarrow> 'e + 'u" where
  "validateTarget url_Parse t =
     (case url_Parse (prefixed_target t) of
        Inl err \<Rightarrow> Inl err
      | Inr parsedURL \<Rightarrow> Inr parsedURL)"

text \<open>
  Not in the source: lower-casing of ASCII letters, to say that two strings differ in
  letter case only. A capital letter has a code from 65 to 90, and setting the bit of
  value 32 gives the small letter.
\<close>

definition ascii_lower :: "char \<Rightarrow> char" where
  "ascii_lower c =
     (if (65::nat) \<le> of_char c \<and> of_char c \<le> (90::nat)
      then (case c of Char b0 b1 b2 b3 b4 b5 b6 b7 \<Rightarrow> Char b0 b1 b2 b3 b4 True b6 b7)
      else c)"


section \<open>Properties of the metrics aggregate\<close>

subsection \<open>Helper facts about \<^verbatim>\<open>Add\<close>\<close>

text \<open>
  After the first block of \<^verbatim>\<open>Add\<close> the map is never \<^verbatim>\<open>nil\<close>, so the write
  \<^verbatim>\<open>m.StatusCodes[r.StatusCode]++\<close> cannot panic.
\<close>

lemma init_once_not_nil: "StatusCodes (init_once m) \<noteq> None"
  by (simp add: init_once_def)

lemma Add_counts_inv:
  "Success m + Failures m = Requests m \<Longrightarrow>
   Success (Add m r) + Failures (Add m r) = Requests (Add m r)"
  by (simp add: Add_def Let_def init_once_def classify_def track_latency_def bump_status_def)

lemma add_all_counts_inv:
  "Success m + Failures m = Requests m \<Longrightarrow>
   Success (add_all m rs) + Failures (add_all m rs) = Requests (add_all m rs)"
  unfolding add_all_def
  by (induction rs arbitrary: m) (simp_all add: Add_counts_inv)

lemma is_success_code_sint: "is_success_code c \<longleftrightarrow> 200 \<le> sint c \<and> sint c < 400"
  by (simp add: is_success_code_def word_sle_eq word_sless_alt)

lemmas Add_unfold =
  Add_def Let_def init_once_def classify_def track_latency_def bump_status_def
  histogram_def count_of_def

subsection \<open>C3: success + failure = total after every Add\<close>

text \<open>
  C3. Feed any sequence \<open>rs\<close> of outcomes to a fresh aggregate. After each individual
  \<^verbatim>\<open>Add\<close>, that is for the aggregate reached on every prefix \<open>take n rs\<close> of the
  sequence, the success count plus the failure count equals the request count. The
  counters are Go integers, so the equation is one of 64-bit arithmetic.
\<close>

theorem counts_after_every_Add:
  "Success (add_all zeroMetrics (take n rs)) + Failures (add_all zeroMetrics (take n rs))
     = Requests (add_all zeroMetrics (take n rs))"
  by (rule add_all_counts_inv) (simp add: zeroMetrics_def)

theorem counts_after_every_Add_witness:
  "Success (add_all zeroMetrics [\<lparr>Latency = 5, StatusCode = 200, Error = None\<rparr>,
                                 \<lparr>Latency = 7, StatusCode = 0, Error = Some ''refused''\<rparr>]) = 1
   \<and> Failures (add_all zeroMetrics [\<lparr>Latency = 5, StatusCode = 200, Error = None\<rparr>,
                                 \<lparr>Latency = 7, StatusCode = 0, Error = Some ''refused''\<rparr>]) = 1
   \<and> Requests (add_all zeroMetrics [\<lparr>Latency = 5, StatusCode = 200, Error = None\<rparr>,
                                 \<lparr>Latency = 7, StatusCode = 0, Error = Some ''refused''\<rparr>]) = 1 + 1"
  using counts_after_every_Add [of 2
      "[\<lparr>Latency = 5, StatusCode = 200, Error = None\<rparr>,
        \<lparr>Latency = 7, StatusCode = 0, Error = Some ''refused''\<rparr>,
        \<lparr>Latency = 9, StatusCode = 500, Error = None\<rparr>]"]
  by (simp add: add_all_def Add_unfold zeroMetrics_def is_success_code_def)

subsection \<open>C6: classification of error-free outcomes\<close>

text \<open>
  C6. For an outcome without error, \<^verbatim>\<open>Add\<close> counts a success exactly when the status
  code, read as a signed integer, lies in the half-open interval from 200 to 400, and a
  failure otherwise; the other of the two counters is left as it was. The witness
  evaluates the four boundary codes 199, 200, 399 and 400.
\<close>

theorem Add_classifies_by_status:
  "Error r = None \<Longrightarrow>
   (200 \<le> sint (StatusCode r) \<and> sint (StatusCode r) < 400 \<longrightarrow>
      Success (Add m r) = Success m + 1 \<and> Failures (Add m r) = Failures m) \<and>
   (\<not> (200 \<le> sint (StatusCode r) \<and> sint (StatusCode r) < 400) \<longrightarrow>
      Success (Add m r) = Success m \<and> Failures (Add m r) = Failures m + 1)"
  by (simp add: Add_def Let_def init_once_def classify_def track_latency_def bump_status_def
      is_success_code_sint)

theorem Add_classifies_by_status_witness:
  "Failures (Add zeroMetrics \<lparr>Latency = 3, StatusCode = 199, Error = None\<rparr>) = 1
   \<and> Success (Add zeroMetrics \<lparr>Latency = 3, StatusCode = 200, Error = None\<rparr>) = 1
   \<and> Success (Add zeroMetrics \<lparr>Latency = 3, StatusCode = 399, Error = None\<rparr>) = 1
   \<and> Failures (Add zeroMetrics \<lparr>Latency = 3, StatusCode = 400, Error = None\<rparr>) = 1
   \<and> Success (Add zeroMetrics \<lparr>Latency = 3, StatusCode = 199, Error = None\<rparr>) = 0
   \<and> Failures (Add zeroMetrics \<lparr>Latency = 3, StatusCode = 200, Error = None\<rparr>) = 0
   \<and> Failures (Add zeroMetrics \<lparr>Latency = 3, StatusCode = 399, Error = None\<rparr>) = 0
   \<and> Success (Add zeroMetrics \<lparr>Latency = 3, StatusCode = 400, Error = None\<rparr>) = 0"
  using
    Add_classifies_by_status [of "\<lparr>Latency = 3, StatusCode = 199, Error = None\<rparr>" zeroMetrics]
    Add_classifies_by_status [of "\<lparr>Latency = 3, StatusCode = 200, Error = None\<rparr>" zeroMetrics]
    Add_classifies_by_status [of "\<lparr>Latency = 3, StatusCode = 399, Error = None\<rparr>" zeroMetrics]
    Add_classifies_by_status [of "\<lparr>Latency = 3, StatusCode = 400, Error = None\<rparr>" zeroMetrics]
  by (simp add: zeroMetrics_def)

subsection \<open>C7: the frame of an errored outcome\<close>

text \<open>
  C7. For an outcome that carries an error, \<^verbatim>\<open>Add\<close> increases the request count and
  the failure count by one each. The histogram (the counts read from \<^verbatim>\<open>StatusCodes\<close>,
  where the \<^verbatim>\<open>nil\<close> map and the empty map made on the first call read alike), the
  latency sum, the latency samples, the success count and the maximum latency are
  unchanged. The minimum latency is the 24-hour sentinel if this was the first call and
  is unchanged otherwise; it does not depend on the latency of the outcome.
\<close>

theorem Add_error_frame:
  "Error r \<noteq> None \<Longrightarrow>
   Requests (Add m r) = Requests m + 1 \<and>
   Failures (Add m r) = Failures m + 1 \<and>
   histogram (Add m r) = histogram m \<and>
   TotalLatency (Add m r) = TotalLatency m \<and>
   Latencies (Add m r) = Latencies m \<and>
   Success (Add m r) = Success m \<and>
   MaxLatency (Add m r) = MaxLatency m \<and>
   MinLatency (Add m r) = (if StatusCodes m = None then 24 * Hour else MinLatency m)"
  by (simp add: Add_def Let_def init_once_def histogram_def)

theorem Add_error_frame_witness:
  "Requests (Add zeroMetrics \<lparr>Latency = 7, StatusCode = 0, Error = Some ''timeout''\<rparr>) = 1
   \<and> Failures (Add zeroMetrics \<lparr>Latency = 7, StatusCode = 0, Error = Some ''timeout''\<rparr>) = 1
   \<and> histogram (Add zeroMetrics \<lparr>Latency = 7, StatusCode = 0, Error = Some ''timeout''\<rparr>)
       = Map.empty
   \<and> TotalLatency (Add zeroMetrics \<lparr>Latency = 7, StatusCode = 0, Error = Some ''timeout''\<rparr>) = 0
   \<and> Latencies (Add zeroMetrics \<lparr>Latency = 7, StatusCode = 0, Error = Some ''timeout''\<rparr>) = []
   \<and> MinLatency (Add zeroMetrics \<lparr>Latency = 7, StatusCode = 0, Error = Some ''timeout''\<rparr>)
       = 86400000000000"
  using Add_error_frame [of "\<lparr>Latency = 7, StatusCode = 0, Error = Some ''timeout''\<rparr>" zeroMetrics]
  by (simp add: zeroMetrics_def histogram_def Hour_def Second_def)

subsection \<open>Helper facts about the rounding of \<^verbatim>\<open>float64\<close>\<close>

lemma bit_length_upper: "n < 2 ^ bit_length n"
proof (induction n rule: bit_length.induct)
  case (1 n)
  show ?case
  proof (cases "n = 0")
    case True then show ?thesis by simp
  next
    case False
    with 1 have "n div 2 < 2 ^ bit_length (n div 2)" by simp
    moreover have "bit_length n = Suc (bit_length (n div 2))"
      using False by (simp add: bit_length.simps [of n])
    ultimately show ?thesis by simp
  qed
qed

lemma bit_length_lower: "n \<noteq> 0 \<Longrightarrow> 2 ^ (bit_length n - 1) \<le> n"
proof (induction n rule: bit_length.induct)
  case (1 n)
  have bl: "bit_length n = Suc (bit_length (n div 2))"
    using 1(2) by (simp add: bit_length.simps [of n])
  show ?case
  proof (cases "n div 2 = 0")
    case True
    then have "bit_length (n div 2) = 0" by (simp add: bit_length.simps [of 0])
    with bl 1(2) show ?thesis by simp
  next
    case False
    with 1 have ih: "2 ^ (bit_length (n div 2) - 1) \<le> n div 2" by simp
    from False have "bit_length (n div 2) \<noteq> 0" by (simp add: bit_length.simps [of "n div 2"])
    then obtain k where k: "bit_length (n div 2) = Suc k" by (cases "bit_length (n div 2)") auto
    with ih have "2 ^ k \<le> n div 2" by simp
    then have "2 * 2 ^ k \<le> n" by linarith
    with bl k show ?thesis by simp
  qed
qed

lemma bit_length_le: "n < 2 ^ k \<Longrightarrow> bit_length n \<le> k"
proof (rule ccontr)
  assume lt: "n < 2 ^ k" and "\<not> bit_length n \<le> k"
  then have k: "k \<le> bit_length n - 1" by simp
  have "bit_length 0 = 0" by (simp add: bit_length.simps)
  with \<open>\<not> bit_length n \<le> k\<close> have "n \<noteq> 0" by (cases "n = 0") auto
  then have "2 ^ (bit_length n - 1) \<le> n" by (rule bit_length_lower)
  moreover have "(2::nat) ^ k \<le> 2 ^ (bit_length n - 1)" using k by (simp add: power_increasing)
  ultimately show False using lt by linarith
qed


lemma round53_small: "n < 2 ^ 53 \<Longrightarrow> round53 n = n"
  by (simp add: round53_def bit_length_le)

lemma round53_nearest:
  assumes big: "53 < bit_length n"
  defines "s \<equiv> bit_length n - 53"
  shows "2 ^ s dvd round53 n"
    and "2 * n \<le> 2 * round53 n + 2 ^ s"
    and "2 * round53 n \<le> 2 * n + 2 ^ s"
proof -
  define q where "q = n div 2 ^ s"
  define r where "r = n mod 2 ^ s"
  define h :: nat where "h = 2 ^ (s - 1)"
  have s: "0 < s" using big by (simp add: s_def)
  then obtain t where t: "s = Suc t" by (cases s) auto
  have hh: "2 * h = 2 ^ s" by (simp add: h_def t)
  have n: "n = q * 2 ^ s + r" unfolding q_def r_def by (rule div_mult_mod_eq [symmetric])
  have r: "r < 2 ^ s" by (simp add: r_def)
  have R: "round53 n = (if h < r \<or> (r = h \<and> odd q) then q + 1 else q) * 2 ^ s"
    using big by (simp add: round53_def Let_def s_def q_def r_def h_def)
  show "2 ^ s dvd round53 n" by (simp add: R)
  show "2 * n \<le> 2 * round53 n + 2 ^ s"
  proof (cases "h < r \<or> (r = h \<and> odd q)")
    case True
    then have "round53 n = q * 2 ^ s + 2 ^ s" by (simp add: R algebra_simps)
    with n r show ?thesis by linarith
  next
    case False
    then have "round53 n = q * 2 ^ s" and "r \<le> h" by (auto simp: R)
    with n hh show ?thesis by linarith
  qed
  show "2 * round53 n \<le> 2 * n + 2 ^ s"
  proof (cases "h < r \<or> (r = h \<and> odd q)")
    case True
    then have "round53 n = q * 2 ^ s + 2 ^ s" and "h \<le> r" by (auto simp: R algebra_simps)
    with n hh show ?thesis by linarith
  next
    case False
    then have "round53 n = q * 2 ^ s" by (simp add: R)
    with n show ?thesis by linarith
  qed
qed

lemma multiple_ge:
  fixes d :: nat
  assumes "d dvd a" "d dvd b" "b < a + d"
  shows "b \<le> a"
proof -
  from assms(1,2) obtain x y where xy: "a = d * x" "b = d * y" by (auto simp: dvd_def)
  with assms(3) have "d * y < d * (x + 1)" by (simp add: algebra_simps)
  then have "y < x + 1" by (simp only: mult_less_cancel1)
  then have "y \<le> x" by simp
  then show ?thesis by (simp add: xy)
qed

lemma p95_index_exact:
  assumes N: "n < 2 ^ 48"
  shows "p95_index n = 19 * n div 20"
proof -
  let ?P = "9007199254740992 :: nat"
  define M where "M = n * f64_095"
  define k where "k = 19 * n div 20"
  define r where "r = 19 * n mod 20"
  have P: "(2::nat) ^ 53 = ?P" by simp
  have nb: "n < 281474976710656" using N by simp
  have rn: "round53 n = n" using nb by (intro round53_small) simp
  have kr: "19 * n = 20 * k + r" and r: "r < 20" by (simp_all add: k_def r_def)
  have M20: "20 * M + 8 * n = 19 * n * ?P" by (simp add: M_def f64_095_def)
  have idx: "p95_index n = round53 M div ?P" by (simp add: p95_index_def rn M_def)
  have M40: "40 * M + 16 * n = 40 * (k * ?P) + 2 * (r * ?P)"
    using M20 kr by (simp add: algebra_simps)
  have rP: "r * ?P \<le> 19 * ?P" using r by simp
  have "k * ?P \<le> round53 M \<and> round53 M < k * ?P + ?P"
  proof (cases "53 < bit_length M")
    case False
    then have "M < 2 ^ 53"
      using bit_length_upper [of M] power_increasing [of "bit_length M" 53 "2::nat"]
      by (simp add: not_less)
    then have M: "round53 M = M" and MP: "M < ?P" by (simp_all add: round53_small)
    then have "n \<le> 1" using M20 by (simp add: M_def f64_095_def)
    then have "k = 0" by (simp add: k_def)
    with M MP show ?thesis by simp
  next
    case True
    define s where "s = bit_length M - 53"
    have d: "2 ^ s dvd round53 M"
      and lo: "2 * M \<le> 2 * round53 M + 2 ^ s"
      and hi: "2 * round53 M \<le> 2 * M + 2 ^ s"
      using round53_nearest [OF True] by (simp_all add: s_def)
    have bl: "bit_length M = s + 53" using True by (simp add: s_def)
    have up: "M < 2 ^ s * ?P"
      using bit_length_upper [of M] by (simp add: bl power_add)
    have "bit_length 0 = 0" by (simp add: bit_length.simps)
    with True have "M \<noteq> 0" by (cases "M = 0") auto
    then have low: "2 ^ s * 4503599627370496 \<le> M"
      using bit_length_lower [of M] by (simp add: bl power_add)
    have n0: "0 < n" using \<open>M \<noteq> 0\<close> by (simp add: M_def)
    then have Mn: "M < n * ?P" by (simp add: M_def f64_095_def)
    have s2n: "(2::nat) ^ s < 2 * n" using low Mn by linarith
    then have "(2::nat) ^ s < 2 ^ 49" using nb by simp
    then have "s < 49" by (simp only: power_strict_increasing_iff) 
    then have "(2::nat) ^ s dvd 2 ^ 53" by (intro le_imp_power_dvd) simp
    then have dk: "2 ^ s dvd k * ?P" by simp
    have s16: "16 * n < 20 * 2 ^ s"
      using up M20 n0 by linarith
    have "k * ?P < round53 M + 2 ^ s"
      using lo M40 s16 by linarith
    with d dk have ge: "k * ?P \<le> round53 M" by (rule multiple_ge)
    have "round53 M < k * ?P + ?P"
      using hi M40 rP s2n nb by linarith
    with ge show ?thesis by simp
  qed
  then have "round53 M div ?P = k"
    by (intro div_nat_eqI) (simp_all add: algebra_simps)
  with idx show ?thesis by (simp add: k_def)
qed




subsection \<open>Helper facts about the derived statistics\<close>

lemma floor_095: "nat \<lfloor>0.95 * real n\<rfloor> = 19 * n div 20"
proof -
  have "0.95 * real n = real (19 * n) / real 20" by simp
  then have "\<lfloor>0.95 * real n\<rfloor> = \<lfloor>real (19 * n) / real 20\<rfloor>" by simp
  also have "\<dots> = int (19 * n div 20)" by (rule floor_divide_of_nat_eq)
  finally show ?thesis by simp
qed

lemma floor_095_simp: "nat \<lfloor>19 * real n / 20\<rfloor> = 19 * n div 20"
  using floor_095 [of n] by simp

lemma sort_Slice_unique:
  assumes "mset ys = mset xs" "sorted (map sint ys)"
  shows "ys = sort_Slice xs"
proof -
  have "mset (map sint ys) = mset (map sint xs)" using assms(1) by (metis mset_map)
  then have "sort (map sint xs) = map sint ys"
    using assms(2) by (intro properties_for_sort) simp_all
  moreover have "map sint (sort_key sint xs) = sort (map sint xs)"
    by (rule properties_for_sort [symmetric]) simp_all
  ultimately have "map (sint :: int64 \<Rightarrow> int) ys = map sint (sort_key sint xs)" by simp
  then show ?thesis
    unfolding sort_Slice_def by (simp add: inj_map_eq_map [OF inj_onI])
qed

lemma length_sort_Slice: "length (sort_Slice xs) = length xs"
  by (simp add: sort_Slice_def)

lemma P95Latency_eq:
  assumes "length (Latencies m) < 2 ^ 48" "Latencies m \<noteq> []"
  shows "P95Latency m = Inr (sort_Slice (Latencies m) ! (19 * length (Latencies m) div 20))"
proof -
  let ?n = "length (Latencies m)"
  have n: "0 < ?n" using assms(2) by simp
  have i: "p95_index ?n = 19 * ?n div 20" using assms(1) by (rule p95_index_exact)
  have lt: "19 * ?n div 20 < ?n" using n by arith
  show ?thesis
    using n lt by (simp add: P95Latency_def Let_def length_sort_Slice i index_go_def)
qed

lemma sint_Second: "sint Second = 1000000000"
  by (simp add: Second_def)

lemma Seconds_eq: "Seconds d = real_of_int (sint d) / 1000000000"
proof -
  let ?b = "1000000000 :: int"
  have "sint d sdiv ?b * ?b + sint d smod ?b = sint d" by (rule sdiv_mult_smod_eq)
  then have "real_of_int (sint d sdiv ?b * ?b + sint d smod ?b) = real_of_int (sint d)" by simp
  then have "real_of_int (sint d sdiv ?b) * 1000000000 + real_of_int (sint d smod ?b) = real_of_int (sint d)"
    by simp
  then show ?thesis by (simp add: Seconds_def sint_Second field_simps)
qed

lemma Seconds_nonzero: "d \<noteq> 0 \<Longrightarrow> Seconds d \<noteq> 0"
  by (simp add: Seconds_eq signed_eq_0_iff)

lemma float64_of_nonzero: "x \<noteq> 0 \<Longrightarrow> float64_of x \<noteq> 0"
  by (simp add: float64_of_def signed_eq_0_iff)

lemma MeanLatency_total: "\<exists>v. MeanLatency m = Inr v"
  by (simp add: MeanLatency_def go_div_def)

lemma P95Latency_total: "\<exists>v. P95Latency m = Inr v"
proof (cases "Latencies m = []")
  case True
  then show ?thesis by (simp add: P95Latency_def)
next
  case False
  then have "0 < length (Latencies m)" by simp
  then show ?thesis
    by (simp add: P95Latency_def Let_def index_go_def length_sort_Slice)
qed

lemma Requests_add_all: "Requests (add_all m rs) = Requests m + of_nat (length rs)"
  unfolding add_all_def
  by (induction rs arbitrary: m) (simp_all add: Add_unfold)

lemma TotalLatency_add_all:
  "TotalLatency (add_all m rs) = TotalLatency m + sum_list (map Latency (filter (\<lambda>r. Error r = None) rs))"
  unfolding add_all_def
  by (induction rs arbitrary: m) (simp_all add: Add_unfold)

lemma zero_requests_fresh:
  assumes "length rs < 2 ^ 64" "Requests (add_all zeroMetrics rs) = 0"
  shows "rs = []"
proof -
  have "(word_of_nat (length rs) :: int64) = 0"
    using assms(2) by (simp add: Requests_add_all zeroMetrics_def)
  then have "2 ^ 64 dvd length rs" by (simp add: word_of_nat_eq_0_iff)
  with assms(1) show ?thesis by (auto dest: dvd_imp_le)
qed



subsection \<open>C4: the 95th percentile is the sample at index min (N - 1) (floor (0.95 N))\<close>

text \<open>
  C4. Let the aggregate hold \<open>N\<close> latency samples, with \<open>N\<close> below \<open>2 ^ 48\<close> (no Go
  slice of 8-byte durations is that long: the runtime allocates at most \<open>2 ^ 48\<close>
  bytes). If \<open>N = 0\<close>, \<^verbatim>\<open>P95Latency\<close> returns 0. Otherwise it returns, without a
  panic and without interpolation, the element at index
  \<open>min (N - 1) (floor (0.95 * N))\<close> of the samples sorted ascending by signed value;
  the rounding of the \<^verbatim>\<open>float64\<close> product does not change the index. The sorted
  sequence is the only ascending rearrangement of the samples.
\<close>

theorem P95Latency_sorted_index:
  "length (Latencies m) < 2 ^ 48 \<Longrightarrow>
   P95Latency m =
     (if Latencies m = [] then Inr 0
      else Inr (sort_key sint (Latencies m) !
                  min (length (Latencies m) - 1) (nat \<lfloor>0.95 * real (length (Latencies m))\<rfloor>)))
   \<and> (\<forall>ys. mset ys = mset (Latencies m) \<and> sorted (map sint ys)
          \<longrightarrow> ys = sort_key sint (Latencies m))"
proof (intro conjI allI impI)
  assume len: "length (Latencies m) < 2 ^ 48"
  let ?n = "length (Latencies m)"
  show "P95Latency m =
    (if Latencies m = [] then Inr 0
     else Inr (sort_key sint (Latencies m) ! min (?n - 1) (nat \<lfloor>0.95 * real ?n\<rfloor>)))"
  proof (cases "Latencies m = []")
    case True
    then show ?thesis by (simp add: P95Latency_def)
  next
    case False
    then have "0 < ?n" by simp
    then have "min (?n - 1) (19 * ?n div 20) = 19 * ?n div 20" by simp
    with False P95Latency_eq [OF len False] show ?thesis
      by (simp add: floor_095_simp sort_Slice_def)
  qed
next
  fix ys
  assume "mset ys = mset (Latencies m) \<and> sorted (map sint ys)"
  then show "ys = sort_key sint (Latencies m)"
    using sort_Slice_unique [of ys "Latencies m"] by (simp add: sort_Slice_def)
qed

theorem P95Latency_sorted_index_witness:
  "length (Latencies (zeroMetrics\<lparr>Latencies :=
      [5, 1, 2, 3, 4, 0, 6, 7, 8, 9, 10, 11, 12, 13, 14, 15, 16, 17, 20, 19, 18]\<rparr>)) < 2 ^ 48
   \<and> P95Latency (zeroMetrics\<lparr>Latencies :=
      [5, 1, 2, 3, 4, 0, 6, 7, 8, 9, 10, 11, 12, 13, 14, 15, 16, 17, 20, 19, 18]\<rparr>) = Inr 19"
  using P95Latency_sorted_index [of "zeroMetrics\<lparr>Latencies :=
      [5, 1, 2, 3, 4, 0, 6, 7, 8, 9, 10, 11, 12, 13, 14, 15, 16, 17, 20, 19, 18]\<rparr>"]
  by (simp add: zeroMetrics_def)

subsection \<open>C8: the derived statistics are total, and zero without requests\<close>

text \<open>
  C8. For every aggregate \<open>m\<close>, also one not built by \<^verbatim>\<open>Add\<close>: \<^verbatim>\<open>MeanLatency\<close> returns
  a value (the integer division is never by zero), \<^verbatim>\<open>P95Latency\<close> returns a value
  (the index is never out of range), and the two floating-point quotients of
  \<^verbatim>\<open>SuccessRate\<close> and \<^verbatim>\<open>Throughput\<close> are never taken with a zero divisor. With a
  request count of zero, the mean latency, the success rate and the throughput are
  zero; with no latency sample the 95th percentile is zero; and an aggregate built by
  \<^verbatim>\<open>Add\<close> from a fresh one (by fewer than \<open>2 ^ 64\<close> calls, so that the counter has not
  wrapped) that counts zero requests has no latency sample, hence a 95th percentile of
  zero as well.
\<close>

theorem derived_statistics_total:
  "(\<exists>v. MeanLatency m = Inr v) \<and>
   (\<exists>v. P95Latency m = Inr v) \<and>
   (Requests m \<noteq> 0 \<longrightarrow> float64_of (Requests m) \<noteq> 0) \<and>
   (TotalLatency m \<noteq> 0 \<longrightarrow> Seconds (TotalLatency m) \<noteq> 0) \<and>
   (Requests m = 0 \<longrightarrow> MeanLatency m = Inr 0 \<and> SuccessRate m = 0 \<and> Throughput m = 0) \<and>
   (Latencies m = [] \<longrightarrow> P95Latency m = Inr 0) \<and>
   (m = add_all zeroMetrics rs \<and> length rs < 2 ^ 64 \<and> Requests m = 0 \<longrightarrow>
      Latencies m = [] \<and> P95Latency m = Inr 0)"
proof (intro conjI impI)
  show "\<exists>v. MeanLatency m = Inr v" by (rule MeanLatency_total)
  show "\<exists>v. P95Latency m = Inr v" by (rule P95Latency_total)
  show "float64_of (Requests m) \<noteq> 0" if "Requests m \<noteq> 0"
    using that by (rule float64_of_nonzero)
  show "Seconds (TotalLatency m) \<noteq> 0" if "TotalLatency m \<noteq> 0"
    using that by (rule Seconds_nonzero)
  show "MeanLatency m = Inr 0" if "Requests m = 0"
    using that by (simp add: MeanLatency_def)
  show "SuccessRate m = 0" if "Requests m = 0"
    using that by (simp add: SuccessRate_def)
  show "Throughput m = 0" if "Requests m = 0"
    using that by (simp add: Throughput_def)
  show "P95Latency m = Inr 0" if "Latencies m = []"
    using that by (simp add: P95Latency_def)
  have fresh: "rs = []" if "m = add_all zeroMetrics rs \<and> length rs < 2 ^ 64 \<and> Requests m = 0"
    using that zero_requests_fresh [of rs] by auto
  show "Latencies m = []" if "m = add_all zeroMetrics rs \<and> length rs < 2 ^ 64 \<and> Requests m = 0"
    using that fresh [OF that] by (simp add: add_all_def zeroMetrics_def)
  show "P95Latency m = Inr 0" if "m = add_all zeroMetrics rs \<and> length rs < 2 ^ 64 \<and> Requests m = 0"
    using that fresh [OF that] by (simp add: add_all_def zeroMetrics_def P95Latency_def)
qed

theorem derived_statistics_total_witness:
  "MeanLatency zeroMetrics = Inr 0 \<and> SuccessRate zeroMetrics = 0 \<and>
   P95Latency zeroMetrics = Inr 0 \<and> Throughput zeroMetrics = 0 \<and>
   (\<exists>v. MeanLatency (add_all zeroMetrics [\<lparr>Latency = 7, StatusCode = 200, Error = None\<rparr>]) = Inr v) \<and>
   (\<exists>v. P95Latency (add_all zeroMetrics [\<lparr>Latency = 7, StatusCode = 200, Error = None\<rparr>]) = Inr v) \<and>
   Seconds (TotalLatency (add_all zeroMetrics [\<lparr>Latency = 7, StatusCode = 200, Error = None\<rparr>])) \<noteq> 0 \<and>
   float64_of (Requests (add_all zeroMetrics [\<lparr>Latency = 7, StatusCode = 200, Error = None\<rparr>])) \<noteq> 0"
  using derived_statistics_total [of zeroMetrics "[]"]
    derived_statistics_total [of "add_all zeroMetrics [\<lparr>Latency = 7, StatusCode = 200, Error = None\<rparr>]" "[]"]
  by (simp add: add_all_def Add_unfold zeroMetrics_def)

subsection \<open>C5: throughput divides by the latencies of error-free outcomes only\<close>

text \<open>
  C5, as claimed, fails: the throughput is not the request count divided by the sum of
  all observed latencies. An errored outcome is counted as a request, but \<^verbatim>\<open>Add\<close>
  returns before it adds the outcome's latency to \<^verbatim>\<open>TotalLatency\<close>. For one
  successful and one errored outcome of one second each, \<^verbatim>\<open>Throughput\<close> is 2, while
  two requests over two seconds of observed latency would be 1.
\<close>

theorem Throughput_counterexample:
  "Throughput (add_all zeroMetrics
     [\<lparr>Latency = 1000000000, StatusCode = 200, Error = None\<rparr>,
      \<lparr>Latency = 1000000000, StatusCode = 0, Error = Some ''timeout''\<rparr>]) = 2
   \<and> real (length [\<lparr>Latency = 1000000000, StatusCode = 200, Error = None\<rparr>,
                    \<lparr>Latency = 1000000000, StatusCode = 0, Error = Some ''timeout''\<rparr>])
       / Seconds (sum_list (map Latency
           [\<lparr>Latency = 1000000000, StatusCode = 200, Error = None\<rparr>,
            \<lparr>Latency = 1000000000, StatusCode = 0, Error = Some ''timeout''\<rparr>])) = 1
   \<and> Throughput (add_all zeroMetrics
     [\<lparr>Latency = 1000000000, StatusCode = 200, Error = None\<rparr>,
      \<lparr>Latency = 1000000000, StatusCode = 0, Error = Some ''timeout''\<rparr>])
     \<noteq> real (length [\<lparr>Latency = 1000000000, StatusCode = 200, Error = None\<rparr>,
                    \<lparr>Latency = 1000000000, StatusCode = 0, Error = Some ''timeout''\<rparr>])
       / Seconds (sum_list (map Latency
           [\<lparr>Latency = 1000000000, StatusCode = 200, Error = None\<rparr>,
            \<lparr>Latency = 1000000000, StatusCode = 0, Error = Some ''timeout''\<rparr>]))"
  by (simp add: add_all_def Add_unfold zeroMetrics_def is_success_code_def Throughput_def
      float64_of_def Seconds_eq)

text \<open>
  C5, amended. For the aggregate built from a fresh one by feeding the outcomes \<open>rs\<close>,
  \<^verbatim>\<open>Throughput\<close> is the request count divided by the sum, in seconds, of the
  latencies of the error-free outcomes only; it is zero when the request count is zero
  and when that sum is zero. Count and sum are the 64-bit values that the aggregate
  holds.
\<close>

theorem Throughput_error_free_latencies:
  "Throughput (add_all zeroMetrics rs) =
     (let n = (word_of_nat (length rs) :: int64);
          t = sum_list (map Latency (filter (\<lambda>r. Error r = None) rs))
      in if n = 0 \<or> t = 0 then 0
         else real_of_int (sint n) / (real_of_int (sint t) / 1000000000))"
  by (simp add: Throughput_def Let_def Requests_add_all TotalLatency_add_all zeroMetrics_def
      float64_of_def Seconds_eq)

theorem Throughput_error_free_latencies_witness:
  "Throughput (add_all zeroMetrics
     [\<lparr>Latency = 1000000000, StatusCode = 200, Error = None\<rparr>,
      \<lparr>Latency = 1000000000, StatusCode = 0, Error = Some ''timeout''\<rparr>,
      \<lparr>Latency = 3000000000, StatusCode = 404, Error = None\<rparr>]) = 3 / 4"
  using Throughput_error_free_latencies [of
     "[\<lparr>Latency = 1000000000, StatusCode = 200, Error = None\<rparr>,
      \<lparr>Latency = 1000000000, StatusCode = 0, Error = Some ''timeout''\<rparr>,
      \<lparr>Latency = 3000000000, StatusCode = 404, Error = None\<rparr>]"]
  by simp

section \<open>Properties of the guard around the results channel\<close>

subsection \<open>Helper facts about the guard\<close>

lemma safeSend_closed: "resultChanClosed g \<Longrightarrow> safeSend g r = [Inr g]"
  by (simp add: safeSend_def)

lemma step_inv:
  assumes "guard_inv g" "out \<in> set (step g x)"
  shows "\<exists>g'. out = Inr g' \<and> guard_inv g' \<and> (resultChanClosed g \<longrightarrow> resultChanClosed g')
           \<and> (x = Close \<longrightarrow> resultChanClosed g')"
proof (cases x)
  case (Send r)
  with assms show ?thesis
    by (auto simp: guard_inv_def safeSend_def select_cases_def chan_send_def chan_send_ready_def
        split: if_splits)
next
  case Close
  with assms show ?thesis
    by (auto simp: guard_inv_def safeClose_def chan_close_def split: if_splits)
next
  case Cancel
  with assms show ?thesis by (auto simp: guard_inv_def cancel_def)
next
  case Recv
  with assms show ?thesis
    by (auto simp: guard_inv_def consumer_recv_def Let_def split: list.splits)
qed

lemma step_nonempty: "step g x \<noteq> []"
  by (cases x) (simp_all add: safeSend_def)

lemma run_ops_inv:
  assumes "guard_inv g" "out \<in> set (run_ops g xs)"
  shows "\<exists>g'. out = Inr g' \<and> guard_inv g' \<and> (resultChanClosed g \<or> Close \<in> set xs \<longrightarrow> resultChanClosed g')"
  using assms
proof (induction xs arbitrary: g)
  case Nil
  then show ?case by simp
next
  case (Cons x xs)
  from Cons.prems(2) obtain mid where mid: "mid \<in> set (step g x)"
    and out: "out \<in> set (case mid of Inl p \<Rightarrow> [Inl p] | Inr g' \<Rightarrow> run_ops g' xs)"
    by auto
  from step_inv [OF Cons.prems(1) mid] obtain g1 where g1: "mid = Inr g1" "guard_inv g1"
    "resultChanClosed g \<longrightarrow> resultChanClosed g1" "x = Close \<longrightarrow> resultChanClosed g1"
    by blast
  from out g1(1) have "out \<in> set (run_ops g1 xs)" by simp
  from Cons.IH [OF g1(2) this] obtain g' where "out = Inr g'" "guard_inv g'"
    "resultChanClosed g1 \<or> Close \<in> set xs \<longrightarrow> resultChanClosed g'" by blast
  with g1(3,4) show ?case by auto
qed

lemma run_ops_nonempty: "run_ops g xs \<noteq> []"
proof (induction xs arbitrary: g)
  case Nil
  show ?case by simp
next
  case (Cons x xs)
  from step_nonempty [of g x] obtain mid rest where st: "step g x = mid # rest"
    by (cases "step g x") auto
  show ?case
  proof (cases mid)
    case (Inl p) with st show ?thesis by simp
  next
    case (Inr g') with st Cons.IH [of g'] show ?thesis by simp
  qed
qed

lemma step_keeps_closed:
  "resultChanClosed g \<Longrightarrow> Inr g' \<in> set (step g x) \<Longrightarrow> resultChanClosed g'"
  by (cases x) (auto simp: safeSend_def safeClose_def cancel_def consumer_recv_def Let_def
      split: list.splits if_splits)

lemma run_ops_closed_drops_sends:
  "resultChanClosed g \<Longrightarrow> run_ops g xs = run_ops g (filter (\<lambda>x. \<not> is_Send x) xs)"
proof (induction xs arbitrary: g)
  case Nil
  show ?case by simp
next
  case (Cons x xs)
  show ?case
  proof (cases "is_Send x")
    case True
    then obtain r where "x = Send r" by (cases x) auto
    with Cons show ?thesis by (simp add: safeSend_closed)
  next
    case False
    have "map (\<lambda>out. case out of Inl p \<Rightarrow> [Inl p] | Inr g' \<Rightarrow> run_ops g' xs) (step g x)
        = map (\<lambda>out. case out of Inl p \<Rightarrow> [Inl p]
                      | Inr g' \<Rightarrow> run_ops g' (filter (\<lambda>x. \<not> is_Send x) xs)) (step g x)"
    proof (rule map_cong [OF refl])
      fix out assume mem: "out \<in> set (step g x)"
      show "(case out of Inl p \<Rightarrow> [Inl p] | Inr g' \<Rightarrow> run_ops g' xs)
          = (case out of Inl p \<Rightarrow> [Inl p] | Inr g' \<Rightarrow> run_ops g' (filter (\<lambda>x. \<not> is_Send x) xs))"
      proof (cases out)
        case (Inl p)
        then show ?thesis by simp
      next
        case (Inr g')
        with mem Cons.prems have "resultChanClosed g'" by (auto intro: step_keeps_closed)
        with Inr Cons.IH [of g'] show ?thesis by simp
      qed
    qed
    then have "concat (map (\<lambda>out. case out of Inl p \<Rightarrow> [Inl p] | Inr g' \<Rightarrow> run_ops g' xs) (step g x))
        = concat (map (\<lambda>out. case out of Inl p \<Rightarrow> [Inl p]
                      | Inr g' \<Rightarrow> run_ops g' (filter (\<lambda>x. \<not> is_Send x) xs)) (step g x))"
      by (rule arg_cong)
    with False show ?thesis by simp
  qed
qed

lemma run_ops_after_Close:
  "guard_inv g \<Longrightarrow>
   run_ops g (xs @ Close # ys) = run_ops g (xs @ Close # filter (\<lambda>x. \<not> is_Send x) ys)"
proof (induction xs arbitrary: g)
  case Nil
  from step_inv [OF Nil, of "safeClose g" Close]
  obtain g' where "safeClose g = Inr g'" "resultChanClosed g'" by auto
  then show ?case using run_ops_closed_drops_sends [of g' ys] by simp
next
  case (Cons x xs)
  have "map (\<lambda>out. case out of Inl p \<Rightarrow> [Inl p] | Inr g' \<Rightarrow> run_ops g' (xs @ Close # ys)) (step g x)
      = map (\<lambda>out. case out of Inl p \<Rightarrow> [Inl p]
               | Inr g' \<Rightarrow> run_ops g' (xs @ Close # filter (\<lambda>x. \<not> is_Send x) ys)) (step g x)"
  proof (rule map_cong [OF refl])
    fix out assume mem: "out \<in> set (step g x)"
    from step_inv [OF Cons.prems mem] obtain g' where "out = Inr g'" "guard_inv g'" by blast
    with Cons.IH [of g']
    show "(case out of Inl p \<Rightarrow> [Inl p] | Inr g' \<Rightarrow> run_ops g' (xs @ Close # ys))
        = (case out of Inl p \<Rightarrow> [Inl p]
           | Inr g' \<Rightarrow> run_ops g' (xs @ Close # filter (\<lambda>x. \<not> is_Send x) ys))"
      by simp
  qed
  then have "concat (map (\<lambda>out. case out of Inl p \<Rightarrow> [Inl p] | Inr g' \<Rightarrow> run_ops g' (xs @ Close # ys)) (step g x))
      = concat (map (\<lambda>out. case out of Inl p \<Rightarrow> [Inl p]
               | Inr g' \<Rightarrow> run_ops g' (xs @ Close # filter (\<lambda>x. \<not> is_Send x) ys)) (step g x))"
    by (rule arg_cong)
  then show ?case by simp
qed

lemma guard_inv_newGuard: "guard_inv (newGuard n)"
  by (simp add: guard_inv_def newGuard_def)


subsection \<open>C1: after a Close the guard stays closed, drops every Send, and has closed once\<close>

text \<open>
  C1. Start from a new guard of any capacity and run any sequence of operations that
  contains a \<^verbatim>\<open>Close\<close>: \<open>xs\<close> before it and \<open>ys\<close> after it, each made of sends,
  further closes, cancellations and receptions by the consumer. Whatever the
  \<^verbatim>\<open>select\<close> statements choose, the run ends without a panic (no close of a closed
  channel, no send on a closed channel), the flag is set, the channel is closed, and
  \<^verbatim>\<open>close(resultsChan)\<close> has been executed exactly once. Every later \<^verbatim>\<open>safeSend\<close>
  leaves the state as it is, and the sends among \<open>ys\<close> have no effect at all: the run
  has the same results with them removed.
\<close>

theorem guard_closes_once:
  "(\<forall>out \<in> set (run_ops (newGuard n) (xs @ Close # ys)).
      \<exists>g. out = Inr g \<and> resultChanClosed g \<and> chclosed (resultsChan g) \<and> closes g = 1
        \<and> (\<forall>r. safeSend g r = [Inr g]))
   \<and> run_ops (newGuard n) (xs @ Close # ys) \<noteq> []
   \<and> run_ops (newGuard n) (xs @ Close # ys)
       = run_ops (newGuard n) (xs @ Close # filter (\<lambda>x. \<not> is_Send x) ys)"
proof (intro conjI ballI)
  fix out assume "out \<in> set (run_ops (newGuard n) (xs @ Close # ys))"
  from run_ops_inv [OF guard_inv_newGuard this]
  obtain g where g: "out = Inr g" "guard_inv g" "resultChanClosed g" by auto
  then have "chclosed (resultsChan g)" "closes g = 1" by (simp_all add: guard_inv_def)
  with g show "\<exists>g. out = Inr g \<and> resultChanClosed g \<and> chclosed (resultsChan g) \<and> closes g = 1
        \<and> (\<forall>r. safeSend g r = [Inr g])"
    by (simp add: safeSend_closed)
next
  show "run_ops (newGuard n) (xs @ Close # ys) \<noteq> []" by (rule run_ops_nonempty)
next
  show "run_ops (newGuard n) (xs @ Close # ys)
       = run_ops (newGuard n) (xs @ Close # filter (\<lambda>x. \<not> is_Send x) ys)"
    by (rule run_ops_after_Close [OF guard_inv_newGuard])
qed


theorem guard_closes_once_witness:
  "run_ops (newGuard 1)
     ([Send \<lparr>Latency = 5, StatusCode = 200, Error = None\<rparr>] @ Close #
      [Send \<lparr>Latency = 9, StatusCode = 500, Error = None\<rparr>, Close])
   = [Inr \<lparr>resultsChan = \<lparr>buf = [\<lparr>Latency = 5, StatusCode = 200, Error = None\<rparr>], cap = 1,
             chclosed = True, parked = False, received = []\<rparr>,
           resultChanClosed = True, ctxDone = False, closes = 1, warnings = 0\<rparr>]
   \<and> run_ops (newGuard 1)
     ([Send \<lparr>Latency = 5, StatusCode = 200, Error = None\<rparr>] @ Close # [Close])
   = [Inr \<lparr>resultsChan = \<lparr>buf = [\<lparr>Latency = 5, StatusCode = 200, Error = None\<rparr>], cap = 1,
             chclosed = True, parked = False, received = []\<rparr>,
           resultChanClosed = True, ctxDone = False, closes = 1, warnings = 0\<rparr>]"
  using guard_closes_once [of 1 "[Send \<lparr>Latency = 5, StatusCode = 200, Error = None\<rparr>]"
      "[Send \<lparr>Latency = 9, StatusCode = 500, Error = None\<rparr>, Close]"]
  by (simp add: newGuard_def safeSend_def select_cases_def chan_send_ready_def chan_send_def
      safeClose_def chan_close_def)

subsection \<open>C2: a send after the deadline can still be enqueued\<close>

text \<open>
  C2. The guard is open, the deadline has fired, and the buffer of capacity one is
  empty. In the \<^verbatim>\<open>select\<close> of \<^verbatim>\<open>safeSend\<close> both \<^verbatim>\<open><-testCtx.Done()\<close> and
  \<^verbatim>\<open>resultsChan <- result\<close> can proceed, and Go chooses one of them at random: the
  function has two possible results, the outcome dropped and the outcome enqueued.
\<close>

theorem safeSend_after_deadline_may_enqueue:
  "run_ops (newGuard 1) [Cancel, Send \<lparr>Latency = 5, StatusCode = 200, Error = None\<rparr>]
   = [Inr \<lparr>resultsChan = \<lparr>buf = [], cap = 1, chclosed = False, parked = False, received = []\<rparr>,
           resultChanClosed = False, ctxDone = True, closes = 0, warnings = 0\<rparr>,
      Inr \<lparr>resultsChan = \<lparr>buf = [\<lparr>Latency = 5, StatusCode = 200, Error = None\<rparr>], cap = 1,
             chclosed = False, parked = False, received = []\<rparr>,
           resultChanClosed = False, ctxDone = True, closes = 0, warnings = 0\<rparr>]"
  by (simp add: newGuard_def safeSend_def select_cases_def chan_send_ready_def chan_send_def
      cancel_def)

section \<open>Properties of the target validator\<close>

subsection \<open>Helper facts about prefixes\<close>

lemma take_eq_prefix:
  "(length p \<le> length s \<and> take (length p) s = p) \<longleftrightarrow> prefix p s"
proof
  assume "length p \<le> length s \<and> take (length p) s = p"
  then have "s = p @ drop (length p) s" by (metis append_take_drop_id)
  then show "prefix p s" by (metis prefixI)
next
  assume "prefix p s"
  then obtain zs where "s = p @ zs" by (auto simp: prefix_def)
  then show "length p \<le> length s \<and> take (length p) s = p" by simp
qed

lemma http_prefix_iff: "(7 \<le> length s \<and> take 7 s = ''http://'') \<longleftrightarrow> prefix ''http://'' s"
  using take_eq_prefix [of "''http://''" s] by (simp add: eval_nat_numeral)

lemma https_prefix_iff: "(8 \<le> length s \<and> take 8 s = ''https://'') \<longleftrightarrow> prefix ''https://'' s"
  using take_eq_prefix [of "''https://''" s] by (simp add: eval_nat_numeral)

lemma isURL_prefix: "isURL s \<longleftrightarrow> prefix ''http://'' s \<or> prefix ''https://'' s"
  by (simp add: isURL_def http_prefix_iff https_prefix_iff)

lemma validateTarget_eq: "validateTarget url_Parse t = url_Parse (prefixed_target t)"
  by (simp add: validateTarget_def split: sum.splits)

lemma case_variant_http:
  assumes "map ascii_lower p = ''http://''" "p \<noteq> ''http://''"
  shows "\<not> isURL (p @ rest)"
proof -
  have "length (map ascii_lower p) = 7" by (simp add: assms(1))
  then have len: "length p = 7" by simp
  have "\<not> prefix ''http://'' (p @ rest)"
  proof
    assume "prefix ''http://'' (p @ rest)"
    then have "take 7 (p @ rest) = ''http://''"
      using http_prefix_iff [of "p @ rest"] by blast
    with len assms(2) show False by simp
  qed
  moreover have "\<not> prefix ''https://'' (p @ rest)"
  proof
    assume "prefix ''https://'' (p @ rest)"
    then have "take 8 (p @ rest) = ''https://''"
      using https_prefix_iff [of "p @ rest"] by blast
    then have "take 7 (take 8 (p @ rest)) = ''https:/''" by simp
    then have "p = ''https:/''" using len by simp
    with assms(1) show False by (simp add: ascii_lower_def)
  qed
  ultimately show ?thesis by (simp add: isURL_prefix)
qed

lemma case_variant_https:
  assumes "map ascii_lower p = ''https://''" "p \<noteq> ''https://''"
  shows "\<not> isURL (p @ rest)"
proof -
  have "length (map ascii_lower p) = 8" by (simp add: assms(1))
  then have len: "length p = 8" by simp
  have "\<not> prefix ''https://'' (p @ rest)"
  proof
    assume "prefix ''https://'' (p @ rest)"
    then have "take 8 (p @ rest) = ''https://''"
      using https_prefix_iff [of "p @ rest"] by blast
    with len assms(2) show False by simp
  qed
  moreover have "\<not> prefix ''http://'' (p @ rest)"
  proof
    assume "prefix ''http://'' (p @ rest)"
    then have "take 7 (p @ rest) = ''http://''"
      using http_prefix_iff [of "p @ rest"] by blast
    then have "take 7 p = ''http://''" using len by simp
    then have "map ascii_lower (take 7 p) = map ascii_lower ''http://''" by simp
    then have "take 7 (map ascii_lower p) = map ascii_lower ''http://''" by (simp add: take_map)
    with assms(1) show False by (simp add: ascii_lower_def)
  qed
  ultimately show ?thesis by (simp add: isURL_prefix)
qed


subsection \<open>C9: the validator prepends the scheme when it is missing, then parses\<close>

text \<open>
  C9. The string handed to the parser is the target itself if it starts with
  \<^verbatim>\<open>http://\<close> or \<^verbatim>\<open>https://\<close>, and the target with \<^verbatim>\<open>http://\<close> in front of it
  otherwise. Whatever the parser is, \<^verbatim>\<open>validateTarget\<close> returns what the parser
  returns on that string: an error if and only if the string does not parse. The
  witness runs the three targets of the specification; for \<^verbatim>\<open>::not a url::\<close> the
  parser is given \<^verbatim>\<open>http://::not a url::\<close>, and a parser that rejects a space in the
  host, as \<^verbatim>\<open>url.Parse\<close> does, makes the validator fail.
\<close>

theorem validateTarget_prefix_then_parse:
  "prefixed_target t =
     (if prefix ''http://'' (target t) \<or> prefix ''https://'' (target t) then target t
      else ''http://'' @ target t)
   \<and> validateTarget url_Parse t = url_Parse (prefixed_target t)
   \<and> ((\<exists>err. validateTarget url_Parse t = Inl err) \<longleftrightarrow> (\<nexists>u. url_Parse (prefixed_target t) = Inr u))"
proof (intro conjI)
  show "prefixed_target t =
     (if prefix ''http://'' (target t) \<or> prefix ''https://'' (target t) then target t
      else ''http://'' @ target t)"
    by (simp add: prefixed_target_def isURL_prefix)
  show "validateTarget url_Parse t = url_Parse (prefixed_target t)" by (rule validateTarget_eq)
  show "(\<exists>err. validateTarget url_Parse t = Inl err) \<longleftrightarrow> (\<nexists>u. url_Parse (prefixed_target t) = Inr u)"
    by (cases "url_Parse (prefixed_target t)") (simp_all add: validateTarget_eq)
qed

theorem validateTarget_prefix_then_parse_witness:
  "prefixed_target \<lparr>target = ''example.com'', rps = 10, concurrency = 0\<rparr> = ''http://example.com''
   \<and> prefixed_target \<lparr>target = ''https://example.com'', rps = 10, concurrency = 0\<rparr>
       = ''https://example.com''
   \<and> prefixed_target \<lparr>target = ''::not a url::'', rps = 10, concurrency = 0\<rparr>
       = ''http://::not a url::''
   \<and> validateTarget (\<lambda>s. if CHR '' '' \<in> set s then Inl ''invalid character in host name'' else Inr s)
        \<lparr>target = ''::not a url::'', rps = 10, concurrency = 0\<rparr>
       = Inl ''invalid character in host name''
   \<and> validateTarget (\<lambda>s. if CHR '' '' \<in> set s then Inl ''invalid character in host name'' else Inr s)
        \<lparr>target = ''example.com'', rps = 10, concurrency = 0\<rparr>
       = Inr ''http://example.com''"
  using
    validateTarget_prefix_then_parse [of "\<lparr>target = ''example.com'', rps = 10, concurrency = 0\<rparr>"
      "\<lambda>s. if CHR '' '' \<in> set s then Inl ''invalid character in host name'' else Inr s"]
    validateTarget_prefix_then_parse [of "\<lparr>target = ''https://example.com'', rps = 10, concurrency = 0\<rparr>"
      "\<lambda>s. if CHR '' '' \<in> set s then Inl ''invalid character in host name'' else Inr s"]
    validateTarget_prefix_then_parse [of "\<lparr>target = ''::not a url::'', rps = 10, concurrency = 0\<rparr>"
      "\<lambda>s. if CHR '' '' \<in> set s then Inl ''invalid character in host name'' else Inr s"]
  by simp


subsection \<open>C10: the scheme test is case-sensitive\<close>

text \<open>
  C10. Let the target begin with a string \<open>p\<close> that is \<^verbatim>\<open>http://\<close> or \<^verbatim>\<open>https://\<close>
  up to the case of its letters, but not exactly. Then \<^verbatim>\<open>isURL\<close> is false, and
  \<^verbatim>\<open>validateTarget\<close> parses the target with \<^verbatim>\<open>http://\<close> put in front of the scheme
  it already has.
\<close>

theorem isURL_case_sensitive:
  "(map ascii_lower p = ''http://'' \<and> p \<noteq> ''http://'') \<or>
   (map ascii_lower p = ''https://'' \<and> p \<noteq> ''https://'') \<Longrightarrow>
   target t = p @ rest \<Longrightarrow>
   \<not> isURL (target t) \<and>
   prefixed_target t = ''http://'' @ p @ rest \<and>
   validateTarget url_Parse t = url_Parse (''http://'' @ p @ rest)"
proof -
  assume v: "(map ascii_lower p = ''http://'' \<and> p \<noteq> ''http://'') \<or>
             (map ascii_lower p = ''https://'' \<and> p \<noteq> ''https://'')"
    and t: "target t = p @ rest"
  from v have "\<not> isURL (p @ rest)"
  proof (rule disjE)
    assume a: "map ascii_lower p = ''http://'' \<and> p \<noteq> ''http://''"
    show ?thesis by (rule case_variant_http [OF conjunct1 [OF a] conjunct2 [OF a]])
  next
    assume a: "map ascii_lower p = ''https://'' \<and> p \<noteq> ''https://''"
    show ?thesis by (rule case_variant_https [OF conjunct1 [OF a] conjunct2 [OF a]])
  qed
  with t have n: "\<not> isURL (target t)" by simp
  then have "prefixed_target t = ''http://'' @ p @ rest"
    by (simp only: prefixed_target_def t if_True not_False_eq_True)
  with n show ?thesis by (simp only: validateTarget_eq) simp
qed

theorem isURL_case_sensitive_witness:
  "map ascii_lower ''HTTP://'' = ''http://'' \<and> ''HTTP://'' \<noteq> ''http://''
   \<and> \<not> isURL ''HTTP://example.com''
   \<and> prefixed_target \<lparr>target = ''HTTP://example.com'', rps = 10, concurrency = 0\<rparr>
       = ''http://HTTP://example.com''
   \<and> validateTarget (\<lambda>s. Inr s :: string + string)
        \<lparr>target = ''HTTP://example.com'', rps = 10, concurrency = 0\<rparr>
       = Inr ''http://HTTP://example.com''"
  using isURL_case_sensitive [of "''HTTP://''"
      "\<lparr>target = ''HTTP://example.com'', rps = 10, concurrency = 0\<rparr>" "''example.com''"
      "\<lambda>s. Inr s :: string + string"]
  by (simp add: ascii_lower_def)

end
